theory Spec2Isabelle
  imports Complex_Main
begin

section \<open>Python values\<close>

text \<open>
  The exceptions that the modelled code can raise. A function that may raise returns
  \<open>py_error + 'a\<close>, with \<open>Inl\<close> for the exception.
\<close>

datatype py_error = ZeroDivisionError | ValueError | UnidentifiedImageError

text \<open>
  Python's \<open>/\<close> on numbers is true division and yields a float. The floats of the
  geometry code are rendered here as exact rationals: every quotient and product is the
  exact one, and \<open>int(x)\<close> truncates it toward zero.
\<close>

definition py_truediv :: "rat \<Rightarrow> rat \<Rightarrow> py_error + rat" where
  "py_truediv a b = (if b = 0 then Inl ZeroDivisionError else Inr (a / b))"

definition py_int :: "rat \<Rightarrow> int" where
  "py_int x = (if 0 \<le> x then \<lfloor>x\<rfloor> else \<lceil>x\<rceil>)"

section \<open>Images\<close>

text \<open>
  An image is known by its size, its mode and its EXIF orientation tag; the pixels are
  not modelled. \<open>image.crop(box)\<close> of the imaging library refuses a box whose right
  or lower edge lies before the left or upper one and returns the region otherwise.
\<close>

record image =
  width :: int
  height :: int
  rgb :: bool
  orientation :: nat

type_synonym box = "int \<times> int \<times> int \<times> int"

definition crop :: "image \<Rightarrow> box \<Rightarrow> py_error + image" where
  "crop im b =
     (case b of (left, upper, right, lower) \<Rightarrow>
        if right < left \<or> lower < upper then Inl ValueError
        else Inr (im\<lparr>width := right - left, height := lower - upper\<rparr>))"

section \<open>crop_to_aspect_ratio\<close>

text \<open>
  Lines 17 to 36 of the source compute the crop box, line 39 applies it.
\<close>

definition crop_box :: "image \<Rightarrow> rat \<Rightarrow> py_error + box" where
  "crop_box im target_ratio =
     (let original_width = width im; original_height = height im in
      case py_truediv (of_int original_width) (of_int original_height) of
        Inl e \<Rightarrow> Inl e
      | Inr original_ratio \<Rightarrow>
          if original_ratio > target_ratio then
            (let new_width = py_int (of_int original_height * target_ratio);
                 new_height = original_height;
                 left = (original_width - new_width) div 2;
                 upper = 0
             in Inr (left, upper, left + new_width, upper + new_height))
          else
            (case py_truediv (of_int original_width) target_ratio of
               Inl e \<Rightarrow> Inl e
             | Inr q \<Rightarrow>
                 (let new_width = original_width;
                      new_height = py_int q;
                      left = 0;
                      upper = (original_height - new_height) div 2
                  in Inr (left, upper, left + new_width, upper + new_height))))"

definition crop_to_aspect_ratio :: "image \<Rightarrow> rat \<Rightarrow> py_error + image" where
  "crop_to_aspect_ratio im target_ratio =
     (case crop_box im target_ratio of
        Inl e \<Rightarrow> Inl e
      | Inr b \<Rightarrow> crop im b)"

section \<open>The imaging library\<close>

text \<open>
  The operations of the imaging library that \<open>process_image\<close> calls, by their effect on
  the size of the image. \<open>round\<close> of Python rounds a half to the even neighbour.
  \<open>ImageOps.contain\<close> divides the width of its argument by its height, and the height
  by the width in one branch, before it resizes; \<open>resize\<close> copies an image that has the
  requested size already and refuses a size below one pixel otherwise; \<open>Image.new\<close>
  refuses a negative size; \<open>exif_transpose\<close> swaps width and height for the
  orientations 5 to 8; blurring, converting and pasting keep the size of the image
  they change.
\<close>

definition py_round :: "rat \<Rightarrow> int" where
  "py_round x =
     (let f = \<lfloor>x\<rfloor>; d = x - of_int f in
      if d < 1 / 2 then f
      else if 1 / 2 < d then f + 1
      else if even f then f else f + 1)"

definition exif_transpose :: "image \<Rightarrow> image" where
  "exif_transpose im =
     (if orientation im \<in> {5, 6, 7, 8}
      then im\<lparr>width := height im, height := width im, orientation := 1\<rparr>
      else im\<lparr>orientation := 1\<rparr>)"

definition convert_rgb :: "image \<Rightarrow> image" where
  "convert_rgb im = im\<lparr>rgb := True\<rparr>"

definition gaussian_blur :: "image \<Rightarrow> image" where
  "gaussian_blur im = im"

definition image_new :: "int \<times> int \<Rightarrow> py_error + image" where
  "image_new sz =
     (case sz of (w, h) \<Rightarrow>
        if w < 0 \<or> h < 0 then Inl ValueError
        else Inr \<lparr>width = w, height = h, rgb = True, orientation = 1\<rparr>)"

definition resize :: "image \<Rightarrow> int \<times> int \<Rightarrow> py_error + image" where
  "resize im sz =
     (case sz of (w, h) \<Rightarrow>
        if (width im, height im) = (w, h) then Inr im
        else if w < 1 \<or> h < 1 then Inl ValueError
        else Inr (im\<lparr>width := w, height := h\<rparr>))"

definition contain :: "image \<Rightarrow> int \<times> int \<Rightarrow> py_error + image" where
  "contain im sz =
     (case sz of (sw, sh) \<Rightarrow>
        (case py_truediv (of_int (width im)) (of_int (height im)) of
          Inl e \<Rightarrow> Inl e
        | Inr im_ratio \<Rightarrow>
            (case py_truediv (of_int sw) (of_int sh) of
               Inl e \<Rightarrow> Inl e
             | Inr dest_ratio \<Rightarrow>
                 if im_ratio \<noteq> dest_ratio then
                   (if im_ratio > dest_ratio then
                      (case py_truediv (of_int (height im)) (of_int (width im)) of
                         Inl e \<Rightarrow> Inl e
                       | Inr q \<Rightarrow>
                           (let new_height = py_round (q * of_int sw) in
                            resize im (if new_height \<noteq> sh then (sw, new_height) else (sw, sh))))
                    else
                      (let new_width = py_round (im_ratio * of_int sh) in
                       resize im (if new_width \<noteq> sw then (new_width, sh) else (sw, sh))))
                 else resize im (sw, sh))))"

definition paste :: "image \<Rightarrow> image \<Rightarrow> int \<times> int \<Rightarrow> image" where
  "paste background im pos = background"

section \<open>process_image: the canvas and the composite\<close>

text \<open>
  Lines 49 to 63: the size of the intermediate canvas for a source of the given size,
  with the fixed target aspect ratio 5 / 3.
\<close>

definition target_aspect_ratio :: rat where
  "target_aspect_ratio = 5 / 3"

definition canvas_size :: "int \<Rightarrow> int \<Rightarrow> py_error + int \<times> int" where
  "canvas_size original_width original_height =
     (case py_truediv (of_int original_width) (of_int original_height) of
        Inl e \<Rightarrow> Inl e
      | Inr aspect_ratio \<Rightarrow>
          if aspect_ratio > target_aspect_ratio then
            (let new_width = original_width;
                 new_height = py_int (of_int new_width / target_aspect_ratio)
             in Inr (new_width, new_height))
          else
            (let new_height = original_height;
                 new_width = py_int (of_int new_height * target_aspect_ratio)
             in Inr (new_width, new_height)))"

text \<open>
  Lines 44 to 85: everything \<open>process_image\<close> does between opening the source and
  saving the result.
\<close>

definition composite :: "image \<Rightarrow> bool \<Rightarrow> int \<Rightarrow> int \<Rightarrow> py_error + image" where
  "composite opened blurred_background target_width target_height =
     (let img = exif_transpose opened;
          img = (if \<not> rgb img then convert_rgb img else img)
      in case canvas_size (width img) (height img) of
           Inl e \<Rightarrow> Inl e
         | Inr (new_width, new_height) \<Rightarrow>
             (let paste_position =
                    ((new_width - width img) div 2, (new_height - height img) div 2)
              in case (if blurred_background then
                         (case crop_to_aspect_ratio (gaussian_blur img) target_aspect_ratio of
                            Inl e \<Rightarrow> Inl e
                          | Inr cropped \<Rightarrow> contain cropped (new_width, new_height))
                       else image_new (new_width, new_height)) of
                   Inl e \<Rightarrow> Inl e
                 | Inr new_background \<Rightarrow>
                     resize (paste new_background img paste_position)
                       (target_width, target_height)))"

section \<open>Paths and names\<close>

text \<open>
  \<open>str.lower\<close> on the letters A to Z, \<open>str.endswith\<close>, \<open>os.path.join\<close> of two
  components with the separator \<open>/\<close>, and the decimal digits that an f-string prints
  for a number that is not negative.
\<close>

definition lower_char :: "char \<Rightarrow> char" where
  "lower_char c =
     (case map_of (zip ''ABCDEFGHIJKLMNOPQRSTUVWXYZ'' ''abcdefghijklmnopqrstuvwxyz'') c of
        None \<Rightarrow> c
      | Some l \<Rightarrow> l)"

definition lower :: "string \<Rightarrow> string" where
  "lower s = map lower_char s"

definition endswith :: "string \<Rightarrow> string \<Rightarrow> bool" where
  "endswith s suf = (length suf \<le> length s \<and> drop (length s - length suf) s = suf)"

definition is_image_name :: "string \<Rightarrow> bool" where
  "is_image_name file =
     (endswith (lower file) ''.jpg'' \<or> endswith (lower file) ''.jpeg''
      \<or> endswith (lower file) ''.png'')"

definition join :: "string \<Rightarrow> string \<Rightarrow> string" where
  "join a b =
     (if take 1 b = ''/'' then b
      else if a = [] \<or> endswith a ''/'' then a @ b
      else a @ ''/'' @ b)"

definition digit_char :: "nat \<Rightarrow> char" where
  "digit_char d = ''0123456789'' ! d"

fun str_nat :: "nat \<Rightarrow> string" where
  "str_nat n = (if n < 10 then [digit_char n] else str_nat (n div 10) @ [digit_char (n mod 10)])"

declare str_nat.simps [simp del]

section \<open>The ledger and the file system\<close>

text \<open>
  A ledger entry is the dictionary that the walker appends. The ledger file is absent,
  or holds text that \<open>json.load\<close> rejects (the empty file is such a text), or holds a
  JSON value that is not an array, or holds an array; the elements of an array are taken
  to be entries of the shape the walker writes.

  The world of a run: the images that \<open>Image.open\<close> decodes at the paths of the input
  tree (\<open>None\<close> where it raises), the files at the output paths, the ledger file, and the
  messages printed so far. The input tree is given to a run as the list of the
  \<open>(root, files)\<close> pairs that \<open>os.walk\<close> yields; it is taken to be disjoint from
  the output paths.
\<close>

record entry =
  input_path :: string
  output_path :: string

datatype ledger_file = Missing | Unparsable | NotArray | Array "entry list"

datatype message =
    InvalidJsonWarning
  | Skipping string
  | Saved string
  | Deleted string

record world =
  images :: "string \<rightharpoonup> image"
  files :: "string \<rightharpoonup> image"
  ledger :: ledger_file
  printed :: "message list"

record config =
  output_folder :: string
  blurred_background :: bool
  target_width :: int
  target_height :: int

definition print :: "message \<Rightarrow> world \<Rightarrow> world" where
  "print m w = w\<lparr>printed := printed w @ [m]\<rparr>"

section \<open>process_image, load_processed_images, save_processed_images\<close>

text \<open>
  An exception leaves the world as it is at that moment: a raising call returns
  \<open>Inl (e, w)\<close>.
\<close>

definition process_image :: "config \<Rightarrow> string \<Rightarrow> string \<Rightarrow> world \<Rightarrow> py_error \<times> world + world" where
  "process_image cfg inp outp w =
     (case images w inp of
        None \<Rightarrow> Inl (UnidentifiedImageError, w)
      | Some opened \<Rightarrow>
          (case composite opened (blurred_background cfg) (target_width cfg) (target_height cfg) of
             Inl e \<Rightarrow> Inl (e, w)
           | Inr new_background \<Rightarrow>
               Inr (print (Saved outp) (w\<lparr>files := (files w)(outp \<mapsto> new_background)\<rparr>))))"

definition load_processed_images :: "world \<Rightarrow> entry list \<times> world" where
  "load_processed_images w =
     (case ledger w of
        Missing \<Rightarrow> ([], w)
      | Unparsable \<Rightarrow> ([], print InvalidJsonWarning w)
      | NotArray \<Rightarrow> ([], w)
      | Array data \<Rightarrow> (data, w))"

definition save_processed_images :: "entry list \<Rightarrow> world \<Rightarrow> world" where
  "save_processed_images processed_images w = w\<lparr>ledger := Array processed_images\<rparr>"

section \<open>resize_images_in_folder\<close>

text \<open>
  The paths that the two nested loops over \<open>os.walk\<close> reach, in their order
  (lines 115 to 118).
\<close>

definition discovered :: "(string \<times> string list) list \<Rightarrow> string list" where
  "discovered walk =
     concat (map (\<lambda>(root, fs). map (join root) (filter is_image_name fs)) walk)"

text \<open>The variables of the walker while it runs through the discovered paths.\<close>

record walker =
  processed_images :: "entry list"
  processed_paths :: "string set"
  image_index :: nat
  current_input_paths :: "string set"

text \<open>Line 127: the numbered output path.\<close>

definition output_name :: "config \<Rightarrow> nat \<Rightarrow> string" where
  "output_name cfg i = join (output_folder cfg) (str_nat i @ ''.jpg'')"

text \<open>Lines 119 to 136, once for each discovered path.\<close>

fun process_files :: "config \<Rightarrow> string list \<Rightarrow> walker \<Rightarrow> world \<Rightarrow> py_error \<times> world + walker \<times> world" where
  "process_files cfg [] s w = Inr (s, w)"
| "process_files cfg (inp # rest) s w =
     (let s1 = s\<lparr>current_input_paths := insert inp (current_input_paths s)\<rparr> in
      if inp \<in> processed_paths s1 then process_files cfg rest s1 (print (Skipping inp) w)
      else
        (let outp = output_name cfg (image_index s1) in
         case process_image cfg inp outp w of
           Inl ew \<Rightarrow> Inl ew
         | Inr w1 \<Rightarrow>
             process_files cfg rest
               (s1\<lparr>processed_images :=
                      processed_images s1 @ [\<lparr>input_path = inp, output_path = outp\<rparr>],
                    processed_paths := insert inp (processed_paths s1),
                    image_index := image_index s1 + 1\<rparr>)
               w1))"

text \<open>Lines 139 to 147: the loop that removes the outputs of deleted inputs.\<close>

fun prune :: "string set \<Rightarrow> entry list \<Rightarrow> entry list \<Rightarrow> world \<Rightarrow> entry list \<times> world" where
  "prune cur [] updated_processed_images w = (updated_processed_images, w)"
| "prune cur (img # rest) updated_processed_images w =
     (if input_path img \<notin> cur then
        (if output_path img \<in> dom (files w) then
           prune cur rest updated_processed_images
             (print (Deleted (output_path img)) (w\<lparr>files := (files w)(output_path img := None)\<rparr>))
         else prune cur rest updated_processed_images w)
      else prune cur rest (updated_processed_images @ [img]) w)"

text \<open>Lines 109 to 150: the run after the ledger is loaded.\<close>

definition sync :: "config \<Rightarrow> (string \<times> string list) list \<Rightarrow> entry list \<Rightarrow> world \<Rightarrow> py_error \<times> world + world" where
  "sync cfg walk loaded w =
     (let n = length loaded;
          s0 = \<lparr>processed_images = loaded,
                processed_paths = input_path ` set loaded,
                image_index = (if n \<noteq> 0 then n + 1 else n),
                current_input_paths = {}\<rparr>
      in case process_files cfg (discovered walk) s0 w of
           Inl ew \<Rightarrow> Inl ew
         | Inr (s, w1) \<Rightarrow>
             (case prune (current_input_paths s) (processed_images s) [] w1 of
                (updated_processed_images, w2) \<Rightarrow>
                  Inr (save_processed_images updated_processed_images w2)))"

definition resize_images_in_folder :: "config \<Rightarrow> (string \<times> string list) list \<Rightarrow> world \<Rightarrow> py_error \<times> world + world" where
  "resize_images_in_folder cfg walk w =
     (case load_processed_images w of
        (loaded, w0) \<Rightarrow> sync cfg walk loaded w0)"

section \<open>Notions used in the statements\<close>

text \<open>
  Whether \<open>process_image\<close> returns for an input path: the file decodes and the composite
  does not raise.
\<close>

definition converts :: "config \<Rightarrow> world \<Rightarrow> string \<Rightarrow> bool" where
  "converts cfg w inp =
     (case images w inp of
        None \<Rightarrow> False
      | Some opened \<Rightarrow>
          (case composite opened (blurred_background cfg) (target_width cfg) (target_height cfg) of
             Inl e \<Rightarrow> False
           | Inr r \<Rightarrow> True))"

text \<open>The entry appended at lines 131 to 134 for the input \<open>inp\<close> when the index is \<open>i\<close>.\<close>

definition new_entry :: "config \<Rightarrow> nat \<Rightarrow> string \<Rightarrow> entry" where
  "new_entry cfg i inp = \<lparr>input_path = inp, output_path = output_name cfg i\<rparr>"

text \<open>The walker after one pass of the loop body: for a skipped and for a new path.\<close>

definition skip_step :: "string \<Rightarrow> walker \<Rightarrow> walker" where
  "skip_step p s = s\<lparr>current_input_paths := insert p (current_input_paths s)\<rparr>"

definition new_step :: "config \<Rightarrow> string \<Rightarrow> walker \<Rightarrow> walker" where
  "new_step cfg p s =
     s\<lparr>current_input_paths := insert p (current_input_paths s),
       processed_images := processed_images s @ [new_entry cfg (image_index s) p],
       processed_paths := insert p (processed_paths s),
       image_index := Suc (image_index s)\<rparr>"

text \<open>The walker at line 113, before the first path.\<close>

definition initial_walker :: "entry list \<Rightarrow> walker" where
  "initial_walker loaded =
     \<lparr>processed_images = loaded,
      processed_paths = input_path ` set loaded,
      image_index = (if length loaded \<noteq> 0 then length loaded + 1 else length loaded),
      current_input_paths = {}\<rparr>"



text \<open>The output paths that the printed messages report as saved, in their order.\<close>

fun saved :: "message list \<Rightarrow> string list" where
  "saved [] = []"
| "saved (Saved p # ms) = p # saved ms"
| "saved (m # ms) = saved ms"

section \<open>Example inputs\<close>


definition photo :: image where
  "photo = \<lparr>width = 4000, height = 3000, rgb = False, orientation = 6\<rparr>"

definition slide :: image where
  "slide = \<lparr>width = 2000, height = 1200, rgb = True, orientation = 1\<rparr>"

definition ex_cfg :: config where
  "ex_cfg = \<lparr>output_folder = ''out'', blurred_background = True,
              target_width = 2000, target_height = 1200\<rparr>"

definition ex_walk :: "(string \<times> string list) list" where
  "ex_walk = [(''in'', [''a.JPG'', ''notes.txt'', ''b.png''])]"

definition ex_world :: world where
  "ex_world = \<lparr>images = [''in/a.JPG'' \<mapsto> photo, ''in/b.png'' \<mapsto> photo],
                files = Map.empty, ledger = Missing, printed = []\<rparr>"

definition ex_world_1 :: world where
  "ex_world_1 =
     \<lparr>images = [''in/a.JPG'' \<mapsto> photo, ''in/b.png'' \<mapsto> photo],
      files = [''out/0.jpg'' \<mapsto> slide, ''out/1.jpg'' \<mapsto> slide],
      ledger = Array [\<lparr>input_path = ''in/a.JPG'', output_path = ''out/0.jpg''\<rparr>,
                      \<lparr>input_path = ''in/b.png'', output_path = ''out/1.jpg''\<rparr>],
      printed = [Saved ''out/0.jpg'', Saved ''out/1.jpg'']\<rparr>"

text \<open>
  A folder of five photos, of which a walk lists those that are present, and the worlds
  that the runs below leave behind.
\<close>

definition gallery :: "string \<rightharpoonup> image" where
  "gallery = [''in/a.jpg'' \<mapsto> photo, ''in/b.jpg'' \<mapsto> photo, ''in/c.jpg'' \<mapsto> photo,
              ''in/d.jpg'' \<mapsto> photo, ''in/e.jpg'' \<mapsto> photo]"

definition fresh :: world where
  "fresh = \<lparr>images = gallery, files = Map.empty, ledger = Missing, printed = []\<rparr>"

definition ledger_abc :: "entry list" where
  "ledger_abc = [\<lparr>input_path = ''in/a.jpg'', output_path = ''out/0.jpg''\<rparr>,
                 \<lparr>input_path = ''in/b.jpg'', output_path = ''out/1.jpg''\<rparr>,
                 \<lparr>input_path = ''in/c.jpg'', output_path = ''out/2.jpg''\<rparr>]"

definition world_abc :: world where
  "world_abc =
     \<lparr>images = gallery,
      files = [''out/0.jpg'' \<mapsto> slide, ''out/1.jpg'' \<mapsto> slide, ''out/2.jpg'' \<mapsto> slide],
      ledger = Array ledger_abc,
      printed = [Saved ''out/0.jpg'', Saved ''out/1.jpg'', Saved ''out/2.jpg'']\<rparr>"

definition walk_abc :: "(string \<times> string list) list" where
  "walk_abc = [(''in'', [''a.jpg'', ''b.jpg'', ''c.jpg''])]"

definition walk_abcde :: "(string \<times> string list) list" where
  "walk_abcde = [(''in'', [''a.jpg'', ''b.jpg'', ''c.jpg'', ''d.jpg'', ''e.jpg''])]"

definition walk_c :: "(string \<times> string list) list" where
  "walk_c = [(''in'', [''c.jpg''])]"

definition walk_cd :: "(string \<times> string list) list" where
  "walk_cd = [(''in'', [''c.jpg'', ''d.jpg''])]"

definition walk_bc :: "(string \<times> string list) list" where
  "walk_bc = [(''in'', [''b.jpg'', ''c.jpg''])]"

definition walk_broken :: "(string \<times> string list) list" where
  "walk_broken = [(''in'', [''a.jpg'', ''broken.jpg'', ''b.jpg''])]"

definition entry_a :: entry where
  "entry_a = \<lparr>input_path = ''in/a.jpg'', output_path = ''out/0.jpg''\<rparr>"

definition world_bc :: world where
  "world_bc =
     \<lparr>images = gallery,
      files = [''out/1.jpg'' \<mapsto> slide, ''out/2.jpg'' \<mapsto> slide],
      ledger = Array [\<lparr>input_path = ''in/b.jpg'', output_path = ''out/1.jpg''\<rparr>,
                      \<lparr>input_path = ''in/c.jpg'', output_path = ''out/2.jpg''\<rparr>],
      printed = [Saved ''out/0.jpg'', Saved ''out/1.jpg'', Saved ''out/2.jpg'',
                 Skipping ''in/b.jpg'', Skipping ''in/c.jpg'', Deleted ''out/0.jpg'']\<rparr>"

definition world_abcde :: world where
  "world_abcde =
     \<lparr>images = gallery,
      files = [''out/0.jpg'' \<mapsto> slide, ''out/1.jpg'' \<mapsto> slide, ''out/2.jpg'' \<mapsto> slide,
               ''out/4.jpg'' \<mapsto> slide, ''out/5.jpg'' \<mapsto> slide],
      ledger = Array (ledger_abc @
                 [\<lparr>input_path = ''in/d.jpg'', output_path = ''out/4.jpg''\<rparr>,
                  \<lparr>input_path = ''in/e.jpg'', output_path = ''out/5.jpg''\<rparr>]),
      printed = [Saved ''out/0.jpg'', Saved ''out/1.jpg'', Saved ''out/2.jpg'',
                 Skipping ''in/a.jpg'', Skipping ''in/b.jpg'', Skipping ''in/c.jpg'',
                 Saved ''out/4.jpg'', Saved ''out/5.jpg'']\<rparr>"

definition world_c2 :: world where
  "world_c2 =
     \<lparr>images = gallery,
      files = [''out/2.jpg'' \<mapsto> slide],
      ledger = Array [\<lparr>input_path = ''in/c.jpg'', output_path = ''out/2.jpg''\<rparr>],
      printed = [Saved ''out/0.jpg'', Saved ''out/1.jpg'', Saved ''out/2.jpg'',
                 Skipping ''in/c.jpg'', Deleted ''out/0.jpg'', Deleted ''out/1.jpg'']\<rparr>"

definition world_cd :: world where
  "world_cd =
     \<lparr>images = gallery,
      files = [''out/2.jpg'' \<mapsto> slide],
      ledger = Array [\<lparr>input_path = ''in/c.jpg'', output_path = ''out/2.jpg''\<rparr>,
                      \<lparr>input_path = ''in/d.jpg'', output_path = ''out/2.jpg''\<rparr>],
      printed = [Saved ''out/0.jpg'', Saved ''out/1.jpg'', Saved ''out/2.jpg'',
                 Skipping ''in/c.jpg'', Deleted ''out/0.jpg'', Deleted ''out/1.jpg'',
                 Skipping ''in/c.jpg'', Saved ''out/2.jpg'']\<rparr>"

definition world_half :: world where
  "world_half =
     \<lparr>images = gallery, files = [''out/0.jpg'' \<mapsto> slide], ledger = Missing,
      printed = [Saved ''out/0.jpg'']\<rparr>"



section \<open>The geometry of the crop and of the canvas\<close>






lemma py_int_times_ratio: "0 \<le> n \<Longrightarrow> py_int (of_int n * target_aspect_ratio) = (5 * n) div 3"
proof -
  assume n: "0 \<le> n"
  have eq: "of_int n * target_aspect_ratio = (of_int (5 * n) :: rat) / of_int 3"
    by (simp add: target_aspect_ratio_def)
  have "0 \<le> of_int n * target_aspect_ratio"
    using n by (simp add: target_aspect_ratio_def)
  then have "py_int (of_int n * target_aspect_ratio) = \<lfloor>of_int n * target_aspect_ratio\<rfloor>"
    by (simp add: py_int_def)
  also have "\<dots> = (5 * n) div 3"
    unfolding eq by (rule floor_divide_of_int_eq)
  finally show ?thesis .
qed

lemma py_int_div_ratio: "0 \<le> n \<Longrightarrow> py_int (of_int n / target_aspect_ratio) = (3 * n) div 5"
proof -
  assume n: "0 \<le> n"
  have eq: "of_int n / target_aspect_ratio = (of_int (3 * n) :: rat) / of_int 5"
    by (simp add: target_aspect_ratio_def)
  have "0 \<le> of_int n / target_aspect_ratio"
    using n by (simp add: target_aspect_ratio_def)
  then have "py_int (of_int n / target_aspect_ratio) = \<lfloor>of_int n / target_aspect_ratio\<rfloor>"
    by (simp add: py_int_def)
  also have "\<dots> = (3 * n) div 5"
    unfolding eq by (rule floor_divide_of_int_eq)
  finally show ?thesis .
qed

lemma wide_iff: "0 < h \<Longrightarrow> (of_int w / of_int h > target_aspect_ratio) = (5 * h < 3 * w)"
proof -
  assume h: "0 < h"
  have "(of_int w / of_int h > target_aspect_ratio) = ((5::rat) / 3 * of_int h < of_int w)"
    using h by (simp add: target_aspect_ratio_def pos_less_divide_eq)
  also have "\<dots> = ((of_int (5 * h) :: rat) < of_int (3 * w))"
    by (simp add: field_simps)
  also have "\<dots> = (5 * h < 3 * w)"
    by (simp only: of_int_less_iff)
  finally show ?thesis .
qed

lemma canvas_size_eq:
  assumes "0 < w" and "0 < h"
  shows "canvas_size w h = Inr (if 5 * h < 3 * w then (w, (3 * w) div 5) else ((5 * h) div 3, h))"
  using assms
  by (simp add: canvas_size_def py_truediv_def wide_iff py_int_times_ratio py_int_div_ratio Let_def)

lemma crop_box_5_3:
  assumes "0 < width im" and "0 < height im"
  shows "crop_box im target_aspect_ratio =
    Inr (if 5 * height im < 3 * width im
         then ((width im - (5 * height im) div 3) div 2, 0,
               (width im - (5 * height im) div 3) div 2 + (5 * height im) div 3, height im)
         else (0, (height im - (3 * width im) div 5) div 2, width im,
               (height im - (3 * width im) div 5) div 2 + (3 * width im) div 5))"
proof -
  have nz: "target_aspect_ratio \<noteq> 0" by (simp add: target_aspect_ratio_def)
  show ?thesis
  using assms nz
  by (simp add: crop_box_def py_truediv_def wide_iff py_int_times_ratio py_int_div_ratio Let_def)
qed



text \<open>
  C9, as amended. For a source of positive width and height the canvas is at least as
  large as the source in both dimensions. One of its dimensions is that of the source
  and the other is the 5:3 counterpart rounded down, so the canvas is 5:3 up to less
  than one pixel; it is exactly 5:3 only when the width of a wide source is a multiple
  of 5, or the height of another source is a multiple of 3.
\<close>

theorem canvas_covers_source:
  assumes "0 < w" and "0 < h"
  shows "\<exists>nw nh. canvas_size w h = Inr (nw, nh) \<and> w \<le> nw \<and> h \<le> nh \<and>
     (if of_int w / of_int h > target_aspect_ratio
      then nw = w \<and> nh = py_int (of_int w / target_aspect_ratio) \<and>
           5 * nh \<le> 3 * nw \<and> 3 * nw < 5 * nh + 5 \<and> (3 * nw = 5 * nh \<longleftrightarrow> 5 dvd w)
      else nh = h \<and> nw = py_int (of_int h * target_aspect_ratio) \<and>
           3 * nw \<le> 5 * nh \<and> 5 * nh < 3 * nw + 3 \<and> (3 * nw = 5 * nh \<longleftrightarrow> 3 dvd h))"
proof (cases "5 * h < 3 * w")
  case True
  then have wide: "of_int w / of_int h > target_aspect_ratio"
    using assms(2) by (simp add: wide_iff)
  have cs: "canvas_size w h = Inr (w, (3 * w) div 5)"
    using assms True by (simp add: canvas_size_eq)
  have pi: "py_int (of_int w / target_aspect_ratio) = (3 * w) div 5"
    using assms(1) by (simp add: py_int_div_ratio)
  have a: "h \<le> (3 * w) div 5" using True by presburger
  have b: "5 * ((3 * w) div 5) \<le> 3 * w" by presburger
  have c: "3 * w < 5 * ((3 * w) div 5) + 5" by presburger
  have d: "(3 * w = 5 * ((3 * w) div 5)) = (5 dvd w)" by presburger
  show ?thesis
    using wide cs pi a b c d by simp
next
  case False
  then have tall: "\<not> of_int w / of_int h > target_aspect_ratio"
    using assms(2) by (simp add: wide_iff)
  have cs: "canvas_size w h = Inr ((5 * h) div 3, h)"
    using assms False by (simp add: canvas_size_eq)
  have pi: "py_int (of_int h * target_aspect_ratio) = (5 * h) div 3"
    using assms(2) by (simp add: py_int_times_ratio)
  have a: "w \<le> (5 * h) div 3" using False by presburger
  have b: "3 * ((5 * h) div 3) \<le> 5 * h" by presburger
  have c: "5 * h < 3 * ((5 * h) div 3) + 3" by presburger
  have d: "(3 * ((5 * h) div 3) = 5 * h) = (3 dvd h)" by presburger
  show ?thesis
    using tall cs pi a b c d by simp
qed

theorem canvas_covers_source_witness:
  "(0 :: int) < 4000 \<and> (0 :: int) < 3000 \<and> canvas_size 4000 3000 = Inr (5000, 3000)"
  using canvas_covers_source[of 4000 3000] by (simp add: canvas_size_eq)

text \<open>The canvas of a source of one pixel is one pixel: not 5:3.\<close>

theorem canvas_not_five_to_three: "canvas_size 1 1 = Inr (1, 1) \<and> (3 :: int) * 1 \<noteq> 5 * 1"
  by (simp add: canvas_size_eq)

section \<open>The composite\<close>

lemma canvas_size_total:
  assumes "0 < w" and "0 < h"
  shows "\<exists>nw nh. canvas_size w h = Inr (nw, nh) \<and> w \<le> nw \<and> h \<le> nh"
proof (cases "5 * h < 3 * w")
  case True
  then have "h \<le> (3 * w) div 5" by presburger
  with assms True show ?thesis by (simp add: canvas_size_eq)
next
  case False
  then have "w \<le> (5 * h) div 3" by presburger
  with assms False show ?thesis by (simp add: canvas_size_eq)
qed

lemma exif_transpose_size:
  "0 < width im \<Longrightarrow> 0 < height im \<Longrightarrow> 0 < width (exif_transpose im) \<and> 0 < height (exif_transpose im)"
  by (simp add: exif_transpose_def)

lemma resize_positive:
  "0 < tw \<Longrightarrow> 0 < th \<Longrightarrow> \<exists>res. resize im (tw, th) = Inr res \<and> width res = tw \<and> height res = th"
  by (auto simp: resize_def)

lemma composite_plain:
  assumes "0 < width im" and "0 < height im" and "0 < tw" and "0 < th"
  shows "\<exists>res. composite im False tw th = Inr res \<and> width res = tw \<and> height res = th"
proof -
  define img where "img = (if \<not> rgb (exif_transpose im) then convert_rgb (exif_transpose im) else exif_transpose im)"
  have pos: "0 < width img" "0 < height img"
    using exif_transpose_size[OF assms(1,2)] by (simp_all add: img_def convert_rgb_def)
  obtain nw nh where cs: "canvas_size (width img) (height img) = Inr (nw, nh)"
    and ge: "width img \<le> nw" "height img \<le> nh"
    using canvas_size_total[OF pos] by blast
  have new: "image_new (nw, nh) = Inr \<lparr>width = nw, height = nh, rgb = True, orientation = 1\<rparr>"
    using ge pos by (simp add: image_new_def)
  have "composite im False tw th =
      resize \<lparr>width = nw, height = nh, rgb = True, orientation = 1\<rparr> (tw, th)"
    using cs new by (simp add: composite_def Let_def img_def[symmetric] paste_def)
  with resize_positive[OF assms(3,4)] show ?thesis by simp
qed

lemma py_round_ge1: "1 \<le> x \<Longrightarrow> 1 \<le> py_round x"
proof -
  assume "1 \<le> x"
  then have "1 \<le> \<lfloor>x\<rfloor>" by (simp add: le_floor_iff)
  then show ?thesis by (simp add: py_round_def Let_def)
qed

lemma resize_ok: "1 \<le> w \<Longrightarrow> 1 \<le> h \<Longrightarrow> \<exists>r. resize im (w, h) = Inr r"
  by (simp add: resize_def)

lemma contain_ok:
  assumes c: "0 < width c" "0 < height c" and s: "0 < sw" "0 < sh"
    and b1: "width c \<le> height c * sw" and b2: "height c \<le> width c * sh"
  shows "\<exists>r. contain c (sw, sh) = Inr r"
proof -
  have q1: "1 \<le> (of_int (height c) :: rat) / of_int (width c) * of_int sw"
  proof -
    have "(of_int (width c) :: rat) \<le> of_int (height c * sw)"
      using b1 by (simp only: of_int_le_iff)
    then show ?thesis using c(1) by (simp add: pos_le_divide_eq)
  qed
  have q2: "1 \<le> (of_int (width c) :: rat) / of_int (height c) * of_int sh"
  proof -
    have "(of_int (height c) :: rat) \<le> of_int (width c * sh)"
      using b2 by (simp only: of_int_le_iff)
    then show ?thesis using c(2) by (simp add: pos_le_divide_eq)
  qed
  have r1: "\<exists>r. resize c (sw, py_round (of_int (height c) / of_int (width c) * of_int sw)) = Inr r"
    using s(1) py_round_ge1[OF q1] by (intro resize_ok) simp_all
  have r2: "\<exists>r. resize c (py_round (of_int (width c) / of_int (height c) * of_int sh), sh) = Inr r"
    using s(2) py_round_ge1[OF q2] by (intro resize_ok) simp_all
  have r3: "\<exists>r. resize c (sw, sh) = Inr r"
    using s by (intro resize_ok) simp_all
  show ?thesis
    using c s r1 r2 r3 by (simp add: contain_def py_truediv_def Let_def)
qed

lemma composite_blurred:
  assumes "2 \<le> width (exif_transpose im)" and "0 < height (exif_transpose im)"
    and "0 < tw" and "0 < th"
  shows "\<exists>res. composite im True tw th = Inr res \<and> width res = tw \<and> height res = th"
proof -
  define img where "img = (if \<not> rgb (exif_transpose im) then convert_rgb (exif_transpose im) else exif_transpose im)"
  define w where "w = width img"
  define h where "h = height img"
  have w: "2 \<le> w" and h: "0 < h"
    using assms by (simp_all add: img_def convert_rgb_def w_def h_def)
  have contained: "\<exists>bg. (case crop_to_aspect_ratio (gaussian_blur img) target_aspect_ratio of
                   Inl e \<Rightarrow> Inl e
                 | Inr cropped \<Rightarrow> contain cropped (nw, nh)) = Inr bg"
    if cs: "canvas_size w h = Inr (nw, nh)" for nw nh
  proof (cases "5 * h < 3 * w")
    case True
    have n: "nw = w" "nh = (3 * w) div 5"
      using cs w h True by (auto simp: canvas_size_eq)
    have cr: "crop_to_aspect_ratio (gaussian_blur img) target_aspect_ratio
                = Inr (img\<lparr>width := (5 * h) div 3, height := h\<rparr>)"
      using w h True
      by (simp add: crop_to_aspect_ratio_def crop_box_5_3 w_def[symmetric] h_def[symmetric] gaussian_blur_def crop_def)
    have a1: "0 < (5 * h) div 3" using h by presburger
    have a2: "h \<le> (3 * w) div 5" using True by presburger
    have a3: "(5 * h) div 3 \<le> w" using True by presburger
    have "w * 1 \<le> w * h" using w h by (intro mult_left_mono) simp_all
    then have b1: "(5 * h) div 3 \<le> h * w" using a3 by (simp add: mult.commute)
    have "1 * h \<le> ((5 * h) div 3) * ((3 * w) div 5)"
      using a1 a2 h by (intro mult_mono) simp_all
    then have b2: "h \<le> ((5 * h) div 3) * ((3 * w) div 5)" by simp
    have "\<exists>r. contain (img\<lparr>width := (5 * h) div 3, height := h\<rparr>) (w, (3 * w) div 5) = Inr r"
      using a1 h w a2 b1 b2 by (intro contain_ok) simp_all
    then show ?thesis by (simp add: cr n)
  next
    case False
    have n: "nw = (5 * h) div 3" "nh = h"
      using cs w h False by (auto simp: canvas_size_eq)
    have cr: "crop_to_aspect_ratio (gaussian_blur img) target_aspect_ratio
                = Inr (img\<lparr>width := w, height := (3 * w) div 5\<rparr>)"
      using w h False
      by (simp add: crop_to_aspect_ratio_def crop_box_5_3 w_def[symmetric] h_def[symmetric] gaussian_blur_def crop_def)
    have a1: "0 < (3 * w) div 5" using w by presburger
    have a2: "w \<le> (5 * h) div 3" using False by presburger
    have a3: "(3 * w) div 5 \<le> w" using w by presburger
    have "1 * w \<le> ((3 * w) div 5) * ((5 * h) div 3)"
      using a1 a2 w by (intro mult_mono) simp_all
    then have b1: "w \<le> ((3 * w) div 5) * ((5 * h) div 3)" by simp
    have "w * 1 \<le> w * h" using w h by (intro mult_left_mono) simp_all
    then have b2: "(3 * w) div 5 \<le> w * h" using a3 by simp
    have "\<exists>r. contain (img\<lparr>width := w, height := (3 * w) div 5\<rparr>) ((5 * h) div 3, h) = Inr r"
      using a1 h w a2 b1 b2 by (intro contain_ok) simp_all
    then show ?thesis by (simp add: cr n)
  qed
  obtain nw nh where cs: "canvas_size w h = Inr (nw, nh)"
    using canvas_size_total[of w h] w h by auto
  from contained[OF cs] obtain bg where bg:
    "(case crop_to_aspect_ratio (gaussian_blur img) target_aspect_ratio of
        Inl e \<Rightarrow> Inl e
      | Inr cropped \<Rightarrow> contain cropped (nw, nh)) = Inr bg" ..
  have "composite im True tw th = resize bg (tw, th)"
    using cs bg by (simp add: composite_def Let_def img_def[symmetric] w_def[symmetric] h_def[symmetric] paste_def)
  with resize_positive[OF assms(3,4)] show ?thesis by simp
qed

lemma composite_blurred_narrow:
  assumes "width (exif_transpose im) = 1" and "0 < height (exif_transpose im)"
  shows "composite im True tw th = Inl ZeroDivisionError"
proof -
  define img where "img = (if \<not> rgb (exif_transpose im) then convert_rgb (exif_transpose im) else exif_transpose im)"
  have w: "width img = 1" and h: "0 < height img"
    using assms by (simp_all add: img_def convert_rgb_def)
  have cs: "canvas_size (width img) (height img) = Inr ((5 * height img) div 3, height img)"
    using w h by (simp add: canvas_size_eq)
  have cb: "crop_box (gaussian_blur img) target_aspect_ratio = Inr (0, height img div 2, 1, height img div 2)"
    using w h by (simp add: crop_box_5_3 gaussian_blur_def)
  have cr: "crop_to_aspect_ratio (gaussian_blur img) target_aspect_ratio
              = Inr (img\<lparr>width := 1, height := 0\<rparr>)"
    using cb by (simp add: crop_to_aspect_ratio_def crop_def gaussian_blur_def)
  show ?thesis
    using cs cr by (simp add: composite_def Let_def img_def[symmetric] contain_def py_truediv_def)
qed


section \<open>The walker: the loops\<close>

lemma process_image_Inr:
  assumes "process_image cfg inp outp w = Inr w'"
  shows "images w' = images w" and "ledger w' = ledger w" and "converts cfg w inp"
  using assms
  by (auto simp: process_image_def converts_def print_def split: option.splits sum.splits)


lemma process_image_converts:
  "converts cfg w inp \<Longrightarrow> \<exists>w'. process_image cfg inp outp w = Inr w'"
  by (auto simp: process_image_def converts_def split: option.splits sum.splits)



lemma process_files_skip:
  "p \<in> processed_paths s \<Longrightarrow>
   process_files cfg (p # ps) s w = process_files cfg ps (skip_step p s) (print (Skipping p) w)"
  by (simp add: skip_step_def)

lemma process_files_new:
  "p \<notin> processed_paths s \<Longrightarrow>
   process_files cfg (p # ps) s w =
     (case process_image cfg p (output_name cfg (image_index s)) w of
        Inl ew \<Rightarrow> Inl ew
      | Inr w1 \<Rightarrow> process_files cfg ps (new_step cfg p s) w1)"
  by (simp add: new_step_def new_entry_def Let_def split: sum.split)

declare process_files.simps(2) [simp del]

lemma process_files_Cons_Inr:
  assumes "process_files cfg (p # ps) s w = Inr (s', w')"
  obtains (skip) "p \<in> processed_paths s"
      and "process_files cfg ps (skip_step p s) (print (Skipping p) w) = Inr (s', w')"
  | (new) w1 where "p \<notin> processed_paths s"
      and "process_image cfg p (output_name cfg (image_index s)) w = Inr w1"
      and "process_files cfg ps (new_step cfg p s) w1 = Inr (s', w')"
proof (cases "p \<in> processed_paths s")
  case True
  with assms skip show ?thesis by (simp add: process_files_skip)
next
  case False
  with assms new show ?thesis
    by (auto simp: process_files_new split: sum.splits)
qed

lemma process_files_all_skipped:
  "set ps \<subseteq> processed_paths s \<Longrightarrow>
   process_files cfg ps s w =
     Inr (s\<lparr>current_input_paths := current_input_paths s \<union> set ps\<rparr>,
          w\<lparr>printed := printed w @ map Skipping ps\<rparr>)"
proof (induction ps arbitrary: s w)
  case Nil
  then show ?case by simp
next
  case (Cons p ps)
  then show ?case by (simp add: process_files_skip skip_step_def print_def)
qed

lemma process_files_current:
  "process_files cfg ps s w = Inr (s', w') \<Longrightarrow>
   current_input_paths s' = current_input_paths s \<union> set ps"
proof (induction ps arbitrary: s w)
  case Nil
  then show ?case by simp
next
  case (Cons p ps)
  from Cons.prems show ?case
  proof (cases rule: process_files_Cons_Inr)
    case skip
    from Cons.IH[OF skip(2)] show ?thesis by (simp add: skip_step_def)
  next
    case (new w1)
    from Cons.IH[OF new(3)] show ?thesis by (simp add: new_step_def)
  qed
qed

lemma process_files_paths_mono:
  "process_files cfg ps s w = Inr (s', w') \<Longrightarrow> processed_paths s \<union> set ps \<subseteq> processed_paths s'"
proof (induction ps arbitrary: s w)
  case Nil
  then show ?case by simp
next
  case (Cons p ps)
  from Cons.prems show ?case
  proof (cases rule: process_files_Cons_Inr)
    case skip
    from Cons.IH[OF skip(2)] skip(1) show ?thesis by (auto simp: skip_step_def)
  next
    case (new w1)
    from Cons.IH[OF new(3)] show ?thesis by (auto simp: new_step_def)
  qed
qed

lemma process_files_paths_images:
  "process_files cfg ps s w = Inr (s', w') \<Longrightarrow>
   processed_paths s = input_path ` set (processed_images s) \<Longrightarrow>
   processed_paths s' = input_path ` set (processed_images s')"
proof (induction ps arbitrary: s w)
  case Nil
  then show ?case by simp
next
  case (Cons p ps)
  from Cons.prems(1) show ?case
  proof (cases rule: process_files_Cons_Inr)
    case skip
    show ?thesis
      by (rule Cons.IH[OF skip(2)]) (simp add: skip_step_def Cons.prems(2))
  next
    case (new w1)
    show ?thesis
      by (rule Cons.IH[OF new(3)]) (simp add: new_step_def new_entry_def Cons.prems(2))
  qed
qed

lemma process_files_frame:
  "process_files cfg ps s w = Inr (s', w') \<Longrightarrow> images w' = images w \<and> ledger w' = ledger w"
proof (induction ps arbitrary: s w)
  case Nil
  then show ?case by simp
next
  case (Cons p ps)
  from Cons.prems show ?case
  proof (cases rule: process_files_Cons_Inr)
    case skip
    from Cons.IH[OF skip(2)] show ?thesis by (simp add: print_def)
  next
    case (new w1)
    from Cons.IH[OF new(3)] process_image_Inr(1,2)[OF new(2)] show ?thesis by simp
  qed
qed

lemma process_files_grows:
  "process_files cfg ps s w = Inr (s', w') \<Longrightarrow> \<exists>new. processed_images s' = processed_images s @ new"
proof (induction ps arbitrary: s w)
  case Nil
  then show ?case by simp
next
  case (Cons p ps)
  from Cons.prems show ?case
  proof (cases rule: process_files_Cons_Inr)
    case skip
    from Cons.IH[OF skip(2)] show ?thesis by (simp add: skip_step_def)
  next
    case (new w1)
    from Cons.IH[OF new(3)] show ?thesis by (auto simp: new_step_def)
  qed
qed

lemma process_files_entries:
  "process_files cfg ps s w = Inr (s', w') \<Longrightarrow> distinct ps \<Longrightarrow>
   processed_images s' =
     processed_images s @
       map (\<lambda>(i, p). new_entry cfg i p)
         (enumerate (image_index s) (filter (\<lambda>p. p \<notin> processed_paths s) ps))"
proof (induction ps arbitrary: s w)
  case Nil
  then show ?case by simp
next
  case (Cons p ps)
  from Cons.prems(2) have d: "distinct ps" and p: "p \<notin> set ps" by simp_all
  from Cons.prems(1) show ?case
  proof (cases rule: process_files_Cons_Inr)
    case skip
    from Cons.IH[OF skip(2) d] skip(1) show ?thesis by (simp add: skip_step_def)
  next
    case (new w1)
    have f: "filter (\<lambda>q. q \<noteq> p \<and> q \<notin> processed_paths s) ps = filter (\<lambda>q. q \<notin> processed_paths s) ps"
      using p by (auto intro: filter_cong)
    from Cons.IH[OF new(3) d] new(1) show ?thesis by (simp add: new_step_def f)
  qed
qed



lemma prune_entries:
  "fst (prune cur es upd w) = upd @ filter (\<lambda>e. input_path e \<in> cur) es"
  by (induction es arbitrary: upd w) simp_all

lemma prune_frame:
  "images (snd (prune cur es upd w)) = images w \<and> ledger (snd (prune cur es upd w)) = ledger w"
  by (induction es arbitrary: upd w) (simp_all add: print_def)

lemma prune_files:
  "files (snd (prune cur es upd w)) =
     files w |` (- output_path ` {e \<in> set es. input_path e \<notin> cur})"
proof (induction es arbitrary: upd w)
  case Nil
  then show ?case by simp
next
  case (Cons e es)
  show ?case
  proof (cases "input_path e \<in> cur")
    case True
    then have "{x \<in> set (e # es). input_path x \<notin> cur} = {x \<in> set es. input_path x \<notin> cur}"
      by auto
    with True Cons.IH show ?thesis by simp
  next
    case False
    then have s: "{x \<in> set (e # es). input_path x \<notin> cur} = insert e {x \<in> set es. input_path x \<notin> cur}"
      by auto
    have r: "\<And>m :: string \<rightharpoonup> image. \<And>S k. m(k := None) |` (- S) = m |` (- insert k S)"
      by (rule ext) (simp add: restrict_map_def)
    have r2: "\<And>m :: string \<rightharpoonup> image. \<And>S k. k \<notin> dom m \<Longrightarrow> m |` (- S) = m |` (- insert k S)"
      by (rule ext) (auto simp: restrict_map_def)
    show ?thesis
    proof (cases "output_path e \<in> dom (files w)")
      case True
      with False have "files (snd (prune cur (e # es) upd w)) =
          (files w)(output_path e := None) |` (- output_path ` {x \<in> set es. input_path x \<notin> cur})"
        by (simp add: Cons.IH print_def del: fun_upd_apply)
      then show ?thesis
        by (simp only: r s image_insert)
    next
      case f: False
      with False show ?thesis
        by (simp only: prune.simps s if_True if_False not_True_eq_False not_False_eq_True Cons.IH image_insert r2[OF f, symmetric])
    qed
  qed
qed

lemma prune_all_kept:
  "\<forall>e \<in> set es. input_path e \<in> cur \<Longrightarrow> prune cur es upd w = (upd @ es, w)"
  by (induction es arbitrary: upd w) simp_all

lemma sync_Inr:
  assumes "sync cfg walk loaded w = Inr w'"
  obtains s w1 where "process_files cfg (discovered walk) (initial_walker loaded) w = Inr (s, w1)"
    and "w' = save_processed_images (fst (prune (current_input_paths s) (processed_images s) [] w1))
                (snd (prune (current_input_paths s) (processed_images s) [] w1))"
  using assms
  by (auto simp: sync_def initial_walker_def Let_def split: sum.splits prod.splits)



lemma sync_ledger:
  assumes "sync cfg walk loaded w = Inr w'"
  obtains s w1 where "process_files cfg (discovered walk) (initial_walker loaded) w = Inr (s, w1)"
    and "ledger w' = Array (filter (\<lambda>e. input_path e \<in> set (discovered walk)) (processed_images s))"
    and "files w' = files w1 |` (- output_path ` {e \<in> set (processed_images s). input_path e \<notin> set (discovered walk)})"
    and "images w' = images w"
proof -
  from assms obtain s w1 where
    pf: "process_files cfg (discovered walk) (initial_walker loaded) w = Inr (s, w1)"
    and w': "w' = save_processed_images (fst (prune (current_input_paths s) (processed_images s) [] w1))
                (snd (prune (current_input_paths s) (processed_images s) [] w1))"
    by (rule sync_Inr)
  have cur: "current_input_paths s = set (discovered walk)"
    using process_files_current[OF pf] by (simp add: initial_walker_def)
  have 1: "ledger w' = Array (filter (\<lambda>e. input_path e \<in> set (discovered walk)) (processed_images s))"
    by (simp add: w' save_processed_images_def prune_entries cur)
  have 2: "files w' = files w1 |` (- output_path ` {e \<in> set (processed_images s). input_path e \<notin> set (discovered walk)})"
    by (simp add: w' save_processed_images_def prune_files cur)
  have 3: "images w' = images w"
    using process_files_frame[OF pf] by (simp add: w' save_processed_images_def prune_frame)
  from pf 1 2 3 show thesis by (rule that)
qed


lemma resize_eq_sync:
  "resize_images_in_folder cfg walk w =
     sync cfg walk (fst (load_processed_images w)) (snd (load_processed_images w))"
  by (simp add: resize_images_in_folder_def split: prod.splits)

lemma new_entries_inputs:
  "map input_path (map (\<lambda>(i, p). new_entry cfg i p) (enumerate n xs)) = xs"
  by (induction xs arbitrary: n) (simp_all add: new_entry_def)

lemma new_entries_input_mem:
  assumes "e \<in> set (map (\<lambda>(i, p). new_entry cfg i p) (enumerate n xs))"
  shows "input_path e \<in> set xs"
proof -
  from assms have "input_path e \<in> set (map input_path (map (\<lambda>(i, p). new_entry cfg i p) (enumerate n xs)))"
    by (simp only: set_map) (rule imageI)
  then show ?thesis by (simp only: new_entries_inputs)
qed

lemma sync_numbering:
  assumes "sync cfg walk loaded w = Inr w'" and "distinct (discovered walk)"
  shows "ledger w' =
     Array (filter (\<lambda>e. input_path e \<in> set (discovered walk)) loaded @
            map (\<lambda>(i, p). new_entry cfg i p)
              (enumerate (if length loaded = 0 then 0 else length loaded + 1)
                 (filter (\<lambda>p. p \<notin> input_path ` set loaded) (discovered walk))))"
proof -
  let ?ps = "discovered walk"
  let ?new = "map (\<lambda>(i, p). new_entry cfg i p)
              (enumerate (if length loaded = 0 then 0 else length loaded + 1)
                 (filter (\<lambda>p. p \<notin> input_path ` set loaded) ?ps))"
  from assms(1) obtain s w1 where
    pf: "process_files cfg ?ps (initial_walker loaded) w = Inr (s, w1)"
    and led: "ledger w' = Array (filter (\<lambda>e. input_path e \<in> set ?ps) (processed_images s))"
    by (rule sync_ledger)
  have "processed_images s = loaded @ ?new"
    using process_files_entries[OF pf assms(2)] by (simp add: initial_walker_def)
  moreover have "\<forall>e \<in> set ?new. input_path e \<in> set ?ps"
  proof
    fix e assume "e \<in> set ?new"
    then have "input_path e \<in> set (filter (\<lambda>p. p \<notin> input_path ` set loaded) ?ps)"
      by (rule new_entries_input_mem)
    then show "input_path e \<in> set ?ps" by simp
  qed
  then have "filter (\<lambda>e. input_path e \<in> set ?ps) ?new = ?new"
    by (simp only: filter_True)
  ultimately show ?thesis using led by simp
qed

lemma saved_append: "saved (xs @ ys) = saved xs @ saved ys"
  by (induction xs rule: saved.induct) simp_all

lemma process_image_printed:
  "process_image cfg inp outp w = Inr w' \<Longrightarrow> printed w' = printed w @ [Saved outp]"
  by (auto simp: process_image_def print_def split: option.splits sum.splits)

lemma process_files_saved:
  "process_files cfg ps s w = Inr (s', w') \<Longrightarrow> distinct ps \<Longrightarrow>
   saved (printed w') =
     saved (printed w) @
       map (\<lambda>(i, p). output_name cfg i)
         (enumerate (image_index s) (filter (\<lambda>p. p \<notin> processed_paths s) ps))"
proof (induction ps arbitrary: s w)
  case Nil
  then show ?case by simp
next
  case (Cons p ps)
  from Cons.prems(2) have d: "distinct ps" and p: "p \<notin> set ps" by simp_all
  from Cons.prems(1) show ?case
  proof (cases rule: process_files_Cons_Inr)
    case skip
    from Cons.IH[OF skip(2) d] skip(1) show ?thesis
      by (simp add: skip_step_def print_def saved_append)
  next
    case (new w1)
    have f: "filter (\<lambda>q. q \<noteq> p \<and> q \<notin> processed_paths s) ps = filter (\<lambda>q. q \<notin> processed_paths s) ps"
      using p by (auto intro: filter_cong)
    from Cons.IH[OF new(3) d] new(1) process_image_printed[OF new(2)] show ?thesis
      by (simp add: new_step_def f saved_append)
  qed
qed

lemma prune_saved: "saved (printed (snd (prune cur es upd w))) = saved (printed w)"
  by (induction es arbitrary: upd w) (simp_all add: print_def saved_append)

lemma load_saved: "saved (printed (snd (load_processed_images w))) = saved (printed w)"
  by (simp add: load_processed_images_def print_def saved_append split: ledger_file.splits)

lemma sync_saved:
  assumes "sync cfg walk loaded w = Inr w'" and "distinct (discovered walk)"
  shows "saved (printed w') =
     saved (printed w) @
       map (\<lambda>(i, p). output_name cfg i)
         (enumerate (if length loaded = 0 then 0 else length loaded + 1)
            (filter (\<lambda>p. p \<notin> input_path ` set loaded) (discovered walk)))"
proof -
  from assms(1) obtain s w1 where
    pf: "process_files cfg (discovered walk) (initial_walker loaded) w = Inr (s, w1)"
    and w': "w' = save_processed_images (fst (prune (current_input_paths s) (processed_images s) [] w1))
                (snd (prune (current_input_paths s) (processed_images s) [] w1))"
    by (rule sync_Inr)
  have "saved (printed w') = saved (printed w1)"
    by (simp add: w' save_processed_images_def prune_saved)
  with process_files_saved[OF pf assms(2)] show ?thesis
    by (simp add: initial_walker_def)
qed







section \<open>The walker: example runs\<close>

lemma composite_photo:
  "composite photo (blurred_background ex_cfg) (target_width ex_cfg) (target_height ex_cfg) = Inr slide"
  unfolding photo_def slide_def ex_cfg_def by code_simp

lemma output_folder_ex: "output_folder ex_cfg = ''out''"
  by (simp add: ex_cfg_def)

lemmas naming = output_name_def output_folder_ex join_def endswith_def str_nat.simps digit_char_def

lemmas running = resize_images_in_folder_def load_processed_images_def sync_def
  process_files.simps process_image_def print_def save_processed_images_def Let_def

lemmas discovering = discovered_def join_def is_image_name_def endswith_def lower_def lower_char_def

lemma discovered_ex_walk: "discovered ex_walk = [''in/a.JPG'', ''in/b.png'']"
  by (simp add: ex_walk_def discovering)

lemma discovered_walks:
  "discovered walk_abc = [''in/a.jpg'', ''in/b.jpg'', ''in/c.jpg'']"
  "discovered walk_abcde = [''in/a.jpg'', ''in/b.jpg'', ''in/c.jpg'', ''in/d.jpg'', ''in/e.jpg'']"
  "discovered walk_c = [''in/c.jpg'']"
  "discovered walk_cd = [''in/c.jpg'', ''in/d.jpg'']"
  "discovered walk_bc = [''in/b.jpg'', ''in/c.jpg'']"
  "discovered walk_broken = [''in/a.jpg'', ''in/broken.jpg'', ''in/b.jpg'']"
  by (simp_all add: walk_abc_def walk_abcde_def walk_c_def walk_cd_def walk_bc_def walk_broken_def discovering)

lemmas worlds = fresh_def world_abc_def ledger_abc_def gallery_def world_bc_def world_abcde_def
  world_c2_def world_cd_def world_half_def

lemma first_run: "resize_images_in_folder ex_cfg ex_walk ex_world = Inr ex_world_1"
  by (simp add: running discovered_ex_walk naming composite_photo ex_world_def ex_world_1_def)

lemma run_abc: "resize_images_in_folder ex_cfg walk_abc fresh = Inr world_abc"
  by (simp add: running discovered_walks naming composite_photo fresh_def world_abc_def ledger_abc_def gallery_def)

lemma run_bc: "resize_images_in_folder ex_cfg walk_bc world_abc = Inr world_bc"
  by (simp add: running discovered_walks naming composite_photo worlds)

lemma run_abcde: "resize_images_in_folder ex_cfg walk_abcde world_abc = Inr world_abcde"
  by (simp add: running discovered_walks naming composite_photo worlds)

lemma run_c: "resize_images_in_folder ex_cfg walk_c world_abc = Inr world_c2"
  by (simp add: running discovered_walks naming composite_photo worlds)

lemma run_cd: "resize_images_in_folder ex_cfg walk_cd world_c2 = Inr world_cd"
  by (simp add: running discovered_walks naming composite_photo worlds)




section \<open>The walker: the claims\<close>

text \<open>
  C1. When a run of the walker has returned, a second run on the same input tree and on
  the world the first run left behind returns too; it leaves the output files and the
  ledger file as they are and only prints that it skips every discovered path.
\<close>

theorem second_run_changes_nothing:
  assumes "resize_images_in_folder cfg walk w = Inr w1"
  shows "resize_images_in_folder cfg walk w1 =
           Inr (w1\<lparr>printed := printed w1 @ map Skipping (discovered walk)\<rparr>)"
proof -
  let ?ps = "discovered walk"
  let ?l = "fst (load_processed_images w)" and ?w0 = "snd (load_processed_images w)"
  from assms have "sync cfg walk ?l ?w0 = Inr w1"
    by (simp add: resize_eq_sync)
  then obtain s wa where
    pf: "process_files cfg ?ps (initial_walker ?l) ?w0 = Inr (s, wa)"
    and led: "ledger w1 = Array (filter (\<lambda>e. input_path e \<in> set ?ps) (processed_images s))"
    by (rule sync_ledger)
  define L where "L = filter (\<lambda>e. input_path e \<in> set ?ps) (processed_images s)"
  have inv: "processed_paths s = input_path ` set (processed_images s)"
    by (rule process_files_paths_images[OF pf]) (simp add: initial_walker_def)
  have sub: "set ?ps \<subseteq> processed_paths s"
    using process_files_paths_mono[OF pf] by simp
  have cover: "set ?ps \<subseteq> input_path ` set L"
    using sub inv unfolding L_def by auto
  have kept: "\<forall>e \<in> set L. input_path e \<in> set ?ps"
    unfolding L_def by simp
  have load1: "load_processed_images w1 = (L, w1)"
    using led by (simp add: load_processed_images_def L_def)
  have skipped: "process_files cfg ?ps (initial_walker L) w1 =
      Inr ((initial_walker L)\<lparr>current_input_paths := current_input_paths (initial_walker L) \<union> set ?ps\<rparr>,
           w1\<lparr>printed := printed w1 @ map Skipping ?ps\<rparr>)"
    by (rule process_files_all_skipped) (use cover in \<open>simp add: initial_walker_def\<close>)
  have pr: "prune (set ?ps) L [] (w1\<lparr>printed := printed w1 @ map Skipping ?ps\<rparr>)
              = ([] @ L, w1\<lparr>printed := printed w1 @ map Skipping ?ps\<rparr>)"
    using kept by (rule prune_all_kept)
  have "sync cfg walk L w1 = Inr ((w1\<lparr>printed := printed w1 @ map Skipping ?ps\<rparr>)\<lparr>ledger := Array L\<rparr>)"
    using skipped pr by (simp add: sync_def initial_walker_def Let_def save_processed_images_def)
  moreover have "(w1\<lparr>printed := printed w1 @ map Skipping ?ps\<rparr>)\<lparr>ledger := Array L\<rparr>
      = w1\<lparr>printed := printed w1 @ map Skipping ?ps\<rparr>"
    using led by (simp add: L_def)
  ultimately show ?thesis
    by (simp add: resize_eq_sync load1)
qed

theorem second_run_changes_nothing_witness:
  "resize_images_in_folder ex_cfg ex_walk ex_world = Inr ex_world_1 \<and>
   resize_images_in_folder ex_cfg ex_walk ex_world_1 =
     Inr (ex_world_1\<lparr>printed := printed ex_world_1 @ map Skipping (discovered ex_walk)\<rparr>)"
  using second_run_changes_nothing[OF first_run] first_run by simp

text \<open>
  C2, as amended. When a run returns and no path is discovered twice, the ledger it
  writes holds the loaded entries whose input is still there, followed by one entry for
  each discovered path that the loaded ledger does not know, in the order of discovery;
  their outputs are numbered consecutively from 0 when the loaded ledger is empty, and
  from its length plus one otherwise. The files that the run reports as saved are these
  outputs, in this order.
\<close>

theorem numbering_of_new_files:
  assumes "resize_images_in_folder cfg walk w = Inr w'" and "distinct (discovered walk)"
  shows "ledger w' =
     Array (filter (\<lambda>e. input_path e \<in> set (discovered walk)) (fst (load_processed_images w)) @
            map (\<lambda>(i, p). \<lparr>input_path = p, output_path = output_name cfg i\<rparr>)
              (enumerate
                 (if length (fst (load_processed_images w)) = 0 then 0
                  else length (fst (load_processed_images w)) + 1)
                 (filter (\<lambda>p. p \<notin> input_path ` set (fst (load_processed_images w)))
                    (discovered walk)))) \<and>
     saved (printed w') =
       saved (printed w) @
         map (\<lambda>(i, p). output_name cfg i)
           (enumerate
              (if length (fst (load_processed_images w)) = 0 then 0
               else length (fst (load_processed_images w)) + 1)
              (filter (\<lambda>p. p \<notin> input_path ` set (fst (load_processed_images w)))
                 (discovered walk)))"
proof -
  from assms(1) have s: "sync cfg walk (fst (load_processed_images w)) (snd (load_processed_images w)) = Inr w'"
    by (simp add: resize_eq_sync)
  from sync_numbering[OF s assms(2)] sync_saved[OF s assms(2)] show ?thesis
    by (simp add: new_entry_def[abs_def] load_saved)
qed

theorem numbering_of_new_files_witness:
  "resize_images_in_folder ex_cfg walk_abcde world_abc = Inr world_abcde \<and>
   distinct (discovered walk_abcde) \<and>
   length (fst (load_processed_images world_abc)) = 3 \<and>
   ledger world_abcde =
     Array (ledger_abc @
            [\<lparr>input_path = ''in/d.jpg'', output_path = output_name ex_cfg 4\<rparr>,
             \<lparr>input_path = ''in/e.jpg'', output_path = output_name ex_cfg 5\<rparr>]) \<and>
   saved (printed world_abcde) = saved (printed world_abc) @ [output_name ex_cfg 4, output_name ex_cfg 5]"
proof -
  have d: "distinct (discovered walk_abcde)"
    by (simp add: discovered_walks)
  have l: "fst (load_processed_images world_abc) = ledger_abc"
    by (simp add: load_processed_images_def world_abc_def)
  have n: "filter (\<lambda>p. p \<notin> input_path ` set ledger_abc) (discovered walk_abcde) = [''in/d.jpg'', ''in/e.jpg'']"
    by (simp add: discovered_walks ledger_abc_def)
  have k: "filter (\<lambda>e. input_path e \<in> set (discovered walk_abcde)) ledger_abc = ledger_abc"
    by (simp add: discovered_walks ledger_abc_def)
  have len: "length ledger_abc = 3"
    by (simp add: ledger_abc_def)
  have e: "enumerate 4 [''in/d.jpg'', ''in/e.jpg''] = [(4, ''in/d.jpg''), (5, ''in/e.jpg'')]"
    by (simp add: eval_nat_numeral)
  from numbering_of_new_files[OF run_abcde d] run_abcde d show ?thesis
    by (simp add: l n k len e)
qed

text \<open>
  Three new files on an empty ledger become 0.jpg, 1.jpg and 2.jpg; two more files on
  the ledger of these three entries become 4.jpg and 5.jpg, and there is no 3.jpg.
\<close>

theorem second_run_starts_after_the_count:
  "resize_images_in_folder ex_cfg walk_abc fresh = Inr world_abc \<and>
   ledger world_abc =
     Array [\<lparr>input_path = ''in/a.jpg'', output_path = ''out/0.jpg''\<rparr>,
            \<lparr>input_path = ''in/b.jpg'', output_path = ''out/1.jpg''\<rparr>,
            \<lparr>input_path = ''in/c.jpg'', output_path = ''out/2.jpg''\<rparr>] \<and>
   resize_images_in_folder ex_cfg walk_abcde world_abc = Inr world_abcde \<and>
   ledger world_abcde =
     Array [\<lparr>input_path = ''in/a.jpg'', output_path = ''out/0.jpg''\<rparr>,
            \<lparr>input_path = ''in/b.jpg'', output_path = ''out/1.jpg''\<rparr>,
            \<lparr>input_path = ''in/c.jpg'', output_path = ''out/2.jpg''\<rparr>,
            \<lparr>input_path = ''in/d.jpg'', output_path = ''out/4.jpg''\<rparr>,
            \<lparr>input_path = ''in/e.jpg'', output_path = ''out/5.jpg''\<rparr>] \<and>
   files world_abcde ''out/3.jpg'' = None"
  using run_abc run_abcde by (simp add: worlds)




text \<open>
  C4. Three runs: the photos a, b, c become 0.jpg, 1.jpg and 2.jpg; a and b are taken
  away and their outputs pruned; then d is added. The ledger then has one entry, so
  d gets the number 2, which c still has.
\<close>

theorem output_number_reused:
  "resize_images_in_folder ex_cfg walk_abc fresh = Inr world_abc \<and>
   resize_images_in_folder ex_cfg walk_c world_abc = Inr world_c2 \<and>
   resize_images_in_folder ex_cfg walk_cd world_c2 = Inr world_cd \<and>
   ledger world_cd =
     Array [\<lparr>input_path = ''in/c.jpg'', output_path = ''out/2.jpg''\<rparr>,
            \<lparr>input_path = ''in/d.jpg'', output_path = ''out/2.jpg''\<rparr>]"
  using run_abc run_c run_cd by (simp add: worlds)

text \<open>
  C5. When a run returns, every entry of the loaded ledger whose input path is not among
  the discovered ones has no output file on disk any more, and the ledger that the run
  writes has no entry for that input path.
\<close>

theorem vanished_inputs_are_pruned:
  assumes "resize_images_in_folder cfg walk w = Inr w'"
    and "e \<in> set (fst (load_processed_images w))"
    and "input_path e \<notin> set (discovered walk)"
  shows "files w' (output_path e) = None \<and>
         (\<exists>kept. ledger w' = Array kept \<and> input_path e \<notin> input_path ` set kept)"
proof -
  let ?l = "fst (load_processed_images w)" and ?w0 = "snd (load_processed_images w)"
  from assms(1) have "sync cfg walk ?l ?w0 = Inr w'"
    by (simp add: resize_eq_sync)
  then obtain s w1 where
    pf: "process_files cfg (discovered walk) (initial_walker ?l) ?w0 = Inr (s, w1)"
    and led: "ledger w' = Array (filter (\<lambda>e. input_path e \<in> set (discovered walk)) (processed_images s))"
    and fil: "files w' = files w1 |` (- output_path ` {e \<in> set (processed_images s). input_path e \<notin> set (discovered walk)})"
    by (rule sync_ledger)
  from process_files_grows[OF pf] obtain new where
    "processed_images s = processed_images (initial_walker ?l) @ new" ..
  then have "e \<in> set (processed_images s)"
    using assms(2) by (simp add: initial_walker_def)
  with assms(3) have "output_path e \<in> output_path ` {e \<in> set (processed_images s). input_path e \<notin> set (discovered walk)}"
    by blast
  then have "files w' (output_path e) = None"
    by (simp add: fil restrict_map_def)
  moreover have "input_path e \<notin> input_path ` set (filter (\<lambda>e. input_path e \<in> set (discovered walk)) (processed_images s))"
    using assms(3) by auto
  ultimately show ?thesis using led by simp
qed

theorem vanished_inputs_are_pruned_witness:
  "resize_images_in_folder ex_cfg walk_bc world_abc = Inr world_bc \<and>
   entry_a \<in> set (fst (load_processed_images world_abc)) \<and>
   input_path entry_a \<notin> set (discovered walk_bc) \<and>
   files world_bc ''out/0.jpg'' = None \<and>
   (\<exists>kept. ledger world_bc = Array kept \<and> ''in/a.jpg'' \<notin> input_path ` set kept)"
proof -
  have m: "entry_a \<in> set (fst (load_processed_images world_abc))"
    by (simp add: load_processed_images_def world_abc_def ledger_abc_def entry_a_def)
  have n: "input_path entry_a \<notin> set (discovered walk_bc)"
    by (simp add: discovered_walks entry_a_def)
  from vanished_inputs_are_pruned[OF run_bc m n] run_bc m n show ?thesis
    by (simp add: entry_a_def)
qed






end
